theory Spec2Isabelle
  imports Complex_Main "HOL-Library.Word"
begin

section \<open>Numbers of the host language\<close>

text \<open>
  The player computes with JavaScript numbers, which are IEEE 754 binary64 values. A finite
  value is modelled as the real number it denotes, and every arithmetic operation rounds
  its exact result to the nearest binary64 value, ties to the even significand. The three
  non-finite values are kept, because the segment locator divides by a character total
  that can be zero, and a comparison with \<open>NaN\<close> is false. The sign of a zero is not
  modelled: the only divisor of the program that can be zero is that total, a sum of
  lengths starting at \<open>0\<close>, so a zero divisor is the positive zero.
\<close>

datatype jsnum = Fin real | PosInf | NegInf | NaN

text \<open>The nearest integer, a tie going to the even one.\<close>

definition round_half_even :: "real \<Rightarrow> int" where
  "round_half_even x =
     (let f = \<lfloor>x\<rfloor>; r = x - of_int f
      in if r < 1 / 2 then f
         else if 1 / 2 < r then f + 1
         else if even f then f else f + 1)"

text \<open>
  The exponent of the unit in the last place of a binary64 value next to \<open>x\<close>: a
  significand has 53 bits, and below \<open>2 ^ - 1022\<close> the values are subnormal, with the
  spacing \<open>2 ^ - 1074\<close>.
\<close>

definition ulp_exponent :: "real \<Rightarrow> int" where
  "ulp_exponent x = max (- 1074) (\<lfloor>log 2 \<bar>x\<bar>\<rfloor> - 52)"

text \<open>Rounding to the nearest value of 53 bits of precision, before the test for overflow.\<close>

definition round_nearest :: "real \<Rightarrow> real" where
  "round_nearest x =
     (if x = 0 then 0
      else of_int (round_half_even (x / 2 powr of_int (ulp_exponent x)))
           * 2 powr of_int (ulp_exponent x))"

text \<open>Rounding to binary64: a rounded magnitude of \<open>2 ^ 1024\<close> or more is an infinity.\<close>

definition round_double :: "real \<Rightarrow> jsnum" where
  "round_double x =
     (let y = round_nearest x
      in if 2 ^ 1024 \<le> y then PosInf
         else if y \<le> - (2 ^ 1024) then NegInf
         else Fin y)"

text \<open>\<open>a / b\<close> on finite operands.\<close>

definition js_div :: "real \<Rightarrow> real \<Rightarrow> jsnum" where
  "js_div a b =
     (if b \<noteq> 0 then round_double (a / b)
      else if a = 0 then NaN
      else if 0 < a then PosInf
      else NegInf)"

text \<open>
  \<open>a - b\<close> on finite operands. The operands of the program's subtractions are readings of
  the audio clock and offsets into the buffer, in seconds: a difference that overflows to
  an infinity is out of their range and is not modelled.
\<close>

definition js_sub :: "real \<Rightarrow> real \<Rightarrow> real" where
  "js_sub a b = round_nearest (a - b)"

text \<open>\<open>x <= y\<close>: false as soon as one side is \<open>NaN\<close>.\<close>

fun js_le :: "jsnum \<Rightarrow> jsnum \<Rightarrow> bool" where
  "js_le (Fin a) (Fin b) = (a \<le> b)"
| "js_le NaN _ = False"
| "js_le _ NaN = False"
| "js_le NegInf _ = True"
| "js_le _ PosInf = True"
| "js_le _ _ = False"

section \<open>Segment locator\<close>

text \<open>
  The \<^verbatim>\<open>for\<close> loop of \<^verbatim>\<open>activeParagraphIndex\<close>, from index \<open>i\<close> with the running count
  \<open>charCountSoFar\<close>. The result is an integer: the fall-through value
  \<^verbatim>\<open>script.length - 1\<close> is \<open>-1\<close> for the empty script.
\<close>

function paragraphLoop :: "jsnum \<Rightarrow> nat \<Rightarrow> string list \<Rightarrow> nat \<Rightarrow> nat \<Rightarrow> int" where
  "paragraphLoop progress totalChars script i charCountSoFar =
     (if i < length script then
        (let pLen = length (script ! i);
             pEndRatio = js_div (real (charCountSoFar + pLen)) (real totalChars)
         in if js_le progress pEndRatio then int i
            else paragraphLoop progress totalChars script (i + 1) (charCountSoFar + pLen))
      else int (length script) - 1)"
  by pat_completeness auto
termination
  by (relation "measure (\<lambda>(progress, totalChars, script, i, charCountSoFar). length script - i)") auto

declare paragraphLoop.simps [simp del]

text \<open>
  \<^verbatim>\<open>script.reduce((acc, p) => acc + p.length, 0)\<close> The lengths and their sums are
  integers below \<open>2 ^ 53\<close>, where the addition of the program does not round: they are
  natural numbers here, in the loop above as well.
\<close>

definition totalChars :: "string list \<Rightarrow> nat" where
  "totalChars script = foldl (\<lambda>acc p. acc + length p) 0 script"

text \<open>
  \<^verbatim>\<open>if (!duration || duration === 0) return 0;\<close> A finite number is falsy exactly when it
  is zero.
\<close>

definition activeParagraphIndex :: "real \<Rightarrow> real \<Rightarrow> string list \<Rightarrow> int" where
  "activeParagraphIndex currentTime duration script =
     (if duration = 0 then 0
      else
        (let progress = js_div currentTime duration
         in paragraphLoop progress (totalChars script) script 0 0))"

section \<open>Decoder\<close>

text \<open>
  The exceptions that the body of \<^verbatim>\<open>initAudio\<close> can raise inside its \<^verbatim>\<open>try\<close> block; the
  \<^verbatim>\<open>catch\<close> block logs them.
\<close>

datatype js_error = InvalidCharacterError | RangeError | NotSupportedError

datatype context_state = Suspended | Running | Closed

record audio_buffer =
  numberOfChannels :: nat
  sampleRate :: nat
  channelData :: "real list"

text \<open>\<^verbatim>\<open>buffer.duration\<close>: the number of sample frames over the sample rate.\<close>

definition buffer_duration :: "audio_buffer \<Rightarrow> real" where
  "buffer_duration buffer =
     round_nearest (real (length (channelData buffer)) / real (sampleRate buffer))"

text \<open>
  Two bytes of the buffer read as one signed 16-bit element, low byte first.
\<close>

fun int16_elements :: "8 word list \<Rightarrow> 16 word list" where
  "int16_elements (lo # hi # rest) = word_cat hi lo # int16_elements rest"
| "int16_elements _ = []"

text \<open>
  \<^verbatim>\<open>new Int16Array(bytes.buffer)\<close>: a view of the whole buffer, with no length given. The
  constructor raises a \<^verbatim>\<open>RangeError\<close> when the byte length of the buffer is not a multiple
  of the element size.
\<close>

definition newInt16Array :: "8 word list \<Rightarrow> js_error + 16 word list" where
  "newInt16Array bytes =
     (if length bytes mod 2 \<noteq> 0 then Inl RangeError else Inr (int16_elements bytes))"

text \<open>
  \<^verbatim>\<open>ctx.createBuffer(channels, length, rate)\<close>: silence of the given length; a length of
  zero raises a \<^verbatim>\<open>NotSupportedError\<close>.
\<close>

definition createBuffer :: "nat \<Rightarrow> nat \<Rightarrow> nat \<Rightarrow> js_error + audio_buffer" where
  "createBuffer channels len rate =
     (if len = 0 then Inl NotSupportedError
      else Inr \<lparr>numberOfChannels = channels, sampleRate = rate, channelData = replicate len 0\<rparr>)"

text \<open>
  \<^verbatim>\<open>dataInt16[i] / 32768.0\<close>. The quotient of a 16-bit integer by \<open>2^15\<close> is exact in
  single and in double precision.
\<close>

definition normalize :: "16 word \<Rightarrow> real" where
  "normalize v = real_of_int (sint v) / 32768"

text \<open>
  Lines 50 to 60 of the component: the binary string (a list of character codes) is copied
  into a byte array, viewed as 16-bit integers, and each integer is written, normalized,
  to the channel of a fresh buffer.
\<close>

definition decodePCM :: "nat list \<Rightarrow> js_error + audio_buffer" where
  "decodePCM binaryString =
     (let bytes = map of_nat binaryString :: 8 word list
      in case newInt16Array bytes of
           Inl e \<Rightarrow> Inl e
         | Inr dataInt16 \<Rightarrow>
             (case createBuffer 1 (length dataInt16) 24000 of
                Inl e \<Rightarrow> Inl e
              | Inr buffer \<Rightarrow> Inr (buffer\<lparr>channelData := map normalize dataInt16\<rparr>)))"

section \<open>Player state\<close>

text \<open>
  What the component asks of the audio graph and of the console, in order. The calls on
  the graph (\<^verbatim>\<open>resume\<close>, \<^verbatim>\<open>start\<close>, \<^verbatim>\<open>stop\<close>) are taken to succeed.
\<close>

datatype effect = ContextResume | SourceStart real real | SourceStop | ConsoleError js_error

record source_node =
  node_buffer :: audio_buffer

record player =
  isPlaying :: bool
  audioContextRef :: "context_state option"
  audioSourceRef :: "source_node option"
  startTimeRef :: real
  currentTime :: real
  duration :: real
  audioBuffer :: "audio_buffer option"
  effects :: "effect list"

definition initialPlayer :: player where
  "initialPlayer =
     \<lparr>isPlaying = False, audioContextRef = None, audioSourceRef = None, startTimeRef = 0,
      currentTime = 0, duration = 0, audioBuffer = None, effects = []\<rparr>"

text \<open>
  \<^verbatim>\<open>initAudio\<close>. The audio context constructor and \<^verbatim>\<open>atob\<close> belong to the platform: the
  result of the first and the function of the second are parameters.
\<close>

definition initAudio ::
  "js_error + context_state \<Rightarrow> (string \<Rightarrow> js_error + nat list) \<Rightarrow> string \<Rightarrow> player \<Rightarrow> player" where
  "initAudio newAudioContext atob base64Audio s =
     (case newAudioContext of
        Inl e \<Rightarrow> s\<lparr>effects := effects s @ [ConsoleError e]\<rparr>
      | Inr ctx \<Rightarrow>
          (let s1 = s\<lparr>audioContextRef := Some ctx\<rparr>
           in case atob base64Audio of
                Inl e \<Rightarrow> s1\<lparr>effects := effects s1 @ [ConsoleError e]\<rparr>
              | Inr binaryString \<Rightarrow>
                  (case decodePCM binaryString of
                     Inl e \<Rightarrow> s1\<lparr>effects := effects s1 @ [ConsoleError e]\<rparr>
                   | Inr buffer \<Rightarrow>
                       s1\<lparr>audioBuffer := Some buffer, duration := buffer_duration buffer\<rparr>)))"

section \<open>Progress clock\<close>

text \<open>\<^verbatim>\<open>now - startTimeRef.current\<close>, with \<open>now\<close> the reading of the audio clock.\<close>

definition elapsed :: "real \<Rightarrow> player \<Rightarrow> real" where
  "elapsed now s = js_sub now (startTimeRef s)"

text \<open>
  One run of \<^verbatim>\<open>updateProgress\<close> at the clock reading \<open>now\<close>. The second component tells
  whether the run asked for another animation frame.
\<close>

definition updateProgress :: "real \<Rightarrow> player \<Rightarrow> player \<times> bool" where
  "updateProgress now s =
     (if isPlaying s \<and> audioContextRef s \<noteq> None then
        (if elapsed now s \<le> duration s
         then (s\<lparr>currentTime := min (elapsed now s) (duration s)\<rparr>, True)
         else (s\<lparr>isPlaying := False, currentTime := duration s\<rparr>, False))
      else (s, False))"

section \<open>Transport\<close>

text \<open>
  \<^verbatim>\<open>handlePlay\<close>, with \<open>now\<close> the reading of the audio clock after the context has resumed.
\<close>

definition handlePlay :: "real \<Rightarrow> player \<Rightarrow> player" where
  "handlePlay now s =
     (case audioBuffer s of
        None \<Rightarrow> s
      | Some buffer \<Rightarrow>
          (case audioContextRef s of
             None \<Rightarrow> s
           | Some ctx \<Rightarrow>
               (let s1 = (if ctx = Suspended
                          then s\<lparr>audioContextRef := Some Running,
                                 effects := effects s @ [ContextResume]\<rparr>
                          else s);
                    source = \<lparr>node_buffer = buffer\<rparr>;
                    offset = (if currentTime s \<ge> duration s then 0 else currentTime s)
                in s1\<lparr>startTimeRef := js_sub now offset,
                      audioSourceRef := Some source,
                      isPlaying := True,
                      effects := effects s1 @ [SourceStart 0 offset]\<rparr>)))"

definition handlePause :: "player \<Rightarrow> player" where
  "handlePause s =
     (case audioSourceRef s of
        None \<Rightarrow> s
      | Some source \<Rightarrow>
          s\<lparr>audioSourceRef := None, isPlaying := False, effects := effects s @ [SourceStop]\<rparr>)"

section \<open>The segment locator as the specification words it\<close>

text \<open>
  The end ratio of segment \<open>i\<close> in the words of the specification: the characters of the
  segments up to and including \<open>i\<close>, divided by the characters of all segments.
\<close>

definition spec_pEndRatio :: "string list \<Rightarrow> nat \<Rightarrow> jsnum" where
  "spec_pEndRatio segments i =
     js_div (real (sum_list (map length (take (Suc i) segments))))
            (real (sum_list (map length segments)))"

section \<open>An example state\<close>

text \<open>A player that has decoded ten seconds of silence and has not played yet.\<close>

definition example_player :: player where
  "example_player =
     \<lparr>isPlaying = False, audioContextRef = Some Running, audioSourceRef = None,
      startTimeRef = 0, currentTime = 0, duration = 10,
      audioBuffer = Some \<lparr>numberOfChannels = 1, sampleRate = 24000,
                          channelData = replicate 240000 0\<rparr>,
      effects = []\<rparr>"

section \<open>Properties of rounding\<close>

lemma rhe_of_int: "round_half_even (of_int n) = n"
  by (simp add: round_half_even_def)

lemma rhe_bounds: "\<lfloor>x\<rfloor> \<le> round_half_even x" "round_half_even x \<le> \<lfloor>x\<rfloor> + 1"
  by (simp_all add: round_half_even_def Let_def)

lemma rhe_mono:
  assumes "x \<le> y"
  shows "round_half_even x \<le> round_half_even y"
proof (cases "\<lfloor>x\<rfloor> = \<lfloor>y\<rfloor>")
  case True
  then show ?thesis
    using assms by (auto simp: round_half_even_def Let_def)
next
  case False
  then have "\<lfloor>x\<rfloor> + 1 \<le> \<lfloor>y\<rfloor>"
    using assms floor_mono[OF assms] by linarith
  then show ?thesis
    using rhe_bounds(2)[of x] rhe_bounds(1)[of y] by linarith
qed

lemma rhe_neg: "round_half_even (- x) = - round_half_even x"
proof (cases "x \<in> \<int>")
  case True
  then obtain n where "x = of_int n" by (auto elim: Ints_cases)
  then show ?thesis
    using rhe_of_int[of "- n"] rhe_of_int[of n] by simp
next
  case False
  then have ne: "x \<noteq> of_int \<lfloor>x\<rfloor>"
    by (metis Ints_of_int)
  then have fl: "\<lfloor>- x\<rfloor> = - \<lfloor>x\<rfloor> - 1"
    by (simp add: floor_minus ceiling_altdef)
  have r: "- x - of_int (- \<lfloor>x\<rfloor> - 1) = 1 - (x - of_int \<lfloor>x\<rfloor>)"
    by simp
  have pos: "0 < x - of_int \<lfloor>x\<rfloor>"
    using ne of_int_floor_le[of x] by linarith
  show ?thesis
    unfolding round_half_even_def Let_def fl r
    using pos by (auto simp: algebra_simps)
qed

lemma ulp_exponent_minus: "ulp_exponent (- x) = ulp_exponent x"
  by (simp add: ulp_exponent_def)

lemma round_nearest_minus: "round_nearest (- x) = - round_nearest x"
  by (simp add: round_nearest_def ulp_exponent_minus rhe_neg)

lemma ulp_exponent_mono:
  assumes "0 < x" and "x \<le> y"
  shows "ulp_exponent x \<le> ulp_exponent y"
proof -
  have "log 2 x \<le> log 2 y" using assms by simp
  then have "\<lfloor>log 2 x\<rfloor> \<le> \<lfloor>log 2 y\<rfloor>" by (rule floor_mono)
  then show ?thesis using assms by (simp add: ulp_exponent_def)
qed

lemma floor_log_bounds:
  assumes "0 < x"
  shows "2 powr of_int \<lfloor>log 2 x\<rfloor> \<le> x" and "x < 2 powr (of_int \<lfloor>log 2 x\<rfloor> + 1)"
  using floor_log_eq_powr_iff[of x 2 "\<lfloor>log 2 x\<rfloor>"] assms by simp_all

lemma below_top:
  assumes "0 < x"
  shows "x / 2 powr of_int (ulp_exponent x) < 2 ^ 53"
proof -
  let ?k = "\<lfloor>log 2 x\<rfloor>"
  let ?e = "ulp_exponent x"
  have "?k - 52 \<le> ?e" using assms by (simp add: ulp_exponent_def)
  then have "of_int ?k + 1 \<le> (of_int ?e + 53 :: real)" by linarith
  then have "2 powr (of_int ?k + 1) \<le> (2::real) powr (of_int ?e + 53)"
    by (simp add: powr_mono)
  then have "x < 2 powr (of_int ?e + 53)"
    using floor_log_bounds(2)[OF assms] by linarith
  also have "\<dots> = 2 powr of_int ?e * 2 ^ 53"
    by (simp add: powr_add)
  finally show ?thesis
    by (simp add: divide_less_eq mult.commute)
qed

lemma above_bottom:
  assumes "0 < x" and "- 1074 < ulp_exponent x"
  shows "2 ^ 52 \<le> x / 2 powr of_int (ulp_exponent x)"
proof -
  let ?k = "\<lfloor>log 2 x\<rfloor>"
  let ?e = "ulp_exponent x"
  have e: "?e = ?k - 52" using assms by (simp add: ulp_exponent_def max_def split: if_splits)
  have "2 powr of_int ?e * 2 ^ 52 = (2::real) powr (of_int ?e + 52)"
    by (simp add: powr_add)
  also have "\<dots> = 2 powr of_int ?k" using e by simp
  also have "\<dots> \<le> x" using floor_log_bounds(1)[OF assms(1)] .
  finally show ?thesis
    by (simp add: le_divide_eq mult.commute)
qed

lemma round_nearest_nonneg: "0 \<le> x \<Longrightarrow> 0 \<le> round_nearest x"
proof -
  assume "0 \<le> x"
  then have "0 \<le> x / 2 powr of_int (ulp_exponent x)" by simp
  then have "round_half_even 0 \<le> round_half_even (x / 2 powr of_int (ulp_exponent x))"
    by (rule rhe_mono)
  then have "0 \<le> round_half_even (x / 2 powr of_int (ulp_exponent x))"
    using rhe_of_int[of 0] by simp
  then show ?thesis by (simp add: round_nearest_def)
qed

lemma round_nearest_mono_pos:
  assumes "0 < x" and "x \<le> y"
  shows "round_nearest x \<le> round_nearest y"
proof -
  let ?ex = "ulp_exponent x" and ?ey = "ulp_exponent y"
  have y: "0 < y" using assms by simp
  have le: "?ex \<le> ?ey" using assms by (rule ulp_exponent_mono)
  show ?thesis
  proof (cases "?ex = ?ey")
    case True
    have "x / 2 powr of_int ?ey \<le> y / 2 powr of_int ?ey"
      using assms(2) by (simp add: divide_right_mono)
    then have "round_half_even (x / 2 powr of_int ?ey) \<le> round_half_even (y / 2 powr of_int ?ey)"
      by (rule rhe_mono)
    then show ?thesis
      using assms y True by (simp add: round_nearest_def)
  next
    case False
    then have lt: "?ex + 1 \<le> ?ey" using le by simp
    then have "- 1074 < ?ey" by (simp add: ulp_exponent_def)
    then have "round_half_even (of_int (2 ^ 52)) \<le> round_half_even (y / 2 powr of_int ?ey)"
      using above_bottom[OF y] by (intro rhe_mono) simp
    then have my: "2 ^ 52 \<le> round_half_even (y / 2 powr of_int ?ey)"
      unfolding rhe_of_int .
    have "round_half_even (x / 2 powr of_int ?ex) \<le> round_half_even (of_int (2 ^ 53))"
      using below_top[OF assms(1)] by (intro rhe_mono) simp
    then have mx: "round_half_even (x / 2 powr of_int ?ex) \<le> 2 ^ 53"
      unfolding rhe_of_int .
    have "round_nearest x \<le> 2 ^ 53 * 2 powr of_int ?ex"
      using mx assms(1) by (simp add: round_nearest_def)
    also have "\<dots> = 2 ^ 52 * 2 powr (of_int (?ex + 1))"
      by (simp add: powr_add)
    also have "\<dots> \<le> 2 ^ 52 * 2 powr of_int ?ey"
      using lt by (intro mult_left_mono powr_mono) simp_all
    also have "\<dots> \<le> round_nearest y"
      using my y by (simp add: round_nearest_def)
    finally show ?thesis .
  qed
qed

lemma round_nearest_mono:
  assumes "x \<le> y"
  shows "round_nearest x \<le> round_nearest y"
proof -
  consider "0 < x" | "x \<le> 0" "0 \<le> y" | "y < 0" by linarith
  then show ?thesis
  proof cases
    case 1
    then show ?thesis using assms by (rule round_nearest_mono_pos)
  next
    case 2
    have "0 \<le> round_nearest (- x)" using 2(1) by (intro round_nearest_nonneg) simp
    then have "round_nearest x \<le> 0" by (simp add: round_nearest_minus)
    then show ?thesis using round_nearest_nonneg[OF 2(2)] by linarith
  next
    case 3
    have "round_nearest (- y) \<le> round_nearest (- x)"
      using 3 assms by (intro round_nearest_mono_pos) simp_all
    then show ?thesis by (simp add: round_nearest_minus)
  qed
qed

lemma round_nearest_exact:
  assumes "\<bar>m\<bar> < 2 ^ 53" and "- 1074 \<le> e"
  shows "round_nearest (of_int m * 2 powr of_int e) = of_int m * 2 powr of_int e"
proof (cases "m = 0")
  case True
  then show ?thesis by (simp add: round_nearest_def)
next
  case False
  let ?x = "of_int m * 2 powr of_int e :: real"
  let ?u = "ulp_exponent ?x"
  have x0: "?x \<noteq> 0" using False by simp
  have ax: "\<bar>?x\<bar> = of_int \<bar>m\<bar> * 2 powr of_int e"
    by (simp add: abs_mult)
  have pos: "0 < \<bar>?x\<bar>" using x0 by simp
  have "of_int \<bar>m\<bar> < (2 ^ 53 :: real)"
    using assms(1) by (metis of_int_less_iff of_int_numeral of_int_power)
  then have "\<bar>?x\<bar> < 2 ^ 53 * 2 powr of_int e"
    unfolding ax by (intro mult_strict_right_mono) simp_all
  also have "\<dots> = 2 powr (of_int (e + 52) + 1)"
    by (simp add: powr_add)
  finally have lt: "\<bar>?x\<bar> < 2 powr (of_int (e + 52) + 1)" .
  have "\<lfloor>log 2 \<bar>?x\<bar>\<rfloor> \<le> e + 52"
  proof (rule ccontr)
    assume "\<not> \<lfloor>log 2 \<bar>?x\<bar>\<rfloor> \<le> e + 52"
    then have "e + 52 + 1 \<le> \<lfloor>log 2 \<bar>?x\<bar>\<rfloor>" by simp
    then have "of_int (e + 52) + 1 \<le> (of_int \<lfloor>log 2 \<bar>?x\<bar>\<rfloor> :: real)" by linarith
    then have "2 powr (of_int (e + 52) + 1) \<le> (2::real) powr of_int \<lfloor>log 2 \<bar>?x\<bar>\<rfloor>"
      by (simp add: powr_mono)
    then show False
      using floor_log_bounds(1)[OF pos] lt by linarith
  qed
  then have ue: "?u \<le> e"
    using assms(2) by (simp add: ulp_exponent_def)
  define u where "u = ?u"
  define k where "k = nat (e - u)"
  have "real_of_int e = real_of_int u + real k"
    using ue by (simp add: k_def u_def)
  then have "(2::real) powr real_of_int e = 2 powr (real_of_int u + real k)"
    by (rule arg_cong)
  then have p: "(2::real) powr real_of_int e = 2 ^ k * 2 powr real_of_int u"
    by (simp add: powr_add powr_realpow)
  have q: "?x / 2 powr real_of_int u = real_of_int (m * 2 ^ k)"
    by (simp add: p)
  have "round_nearest ?x = real_of_int (round_half_even (?x / 2 powr real_of_int u)) * 2 powr real_of_int u"
    using x0 by (simp add: round_nearest_def u_def)
  also have "\<dots> = real_of_int (m * 2 ^ k) * 2 powr real_of_int u"
    unfolding q rhe_of_int ..
  also have "\<dots> = ?x"
    by (simp add: p)
  finally show ?thesis .
qed

lemma round_nearest_of_int:
  "\<bar>m\<bar> < 2 ^ 53 \<Longrightarrow> round_nearest (of_int m) = of_int m"
  using round_nearest_exact[of m 0] by simp

lemma round_nearest_dyadic:
  assumes "\<bar>m\<bar> < 2 ^ 53" and "k \<le> 1074"
  shows "round_nearest (of_int m / 2 ^ k) = of_int m / 2 ^ k"
proof -
  have "(2::real) powr of_int (- int k) = 1 / 2 ^ k"
    by (simp add: powr_minus powr_realpow divide_inverse)
  then show ?thesis
    using round_nearest_exact[OF assms(1), of "- int k"] assms(2) by simp
qed

lemma round_nearest_0: "round_nearest 0 = 0"
  by (simp add: round_nearest_def)

lemma round_double_mono:
  "x \<le> y \<Longrightarrow> js_le (round_double x) (round_double y)"
  using round_nearest_mono[of x y] by (auto simp: round_double_def Let_def)

lemma js_le_trans: "js_le a b \<Longrightarrow> js_le b c \<Longrightarrow> js_le a c"
  by (cases a; cases b; cases c) auto

lemma js_le_NaN: "\<not> js_le x NaN"
  by (cases x) auto

lemma round_double_Fin:
  assumes "\<bar>x\<bar> \<le> 2 ^ 52"
  shows "round_double x = Fin (round_nearest x)"
proof -
  have e: "round_nearest (2 ^ 52) = 2 ^ 52"
    using round_nearest_of_int[of "2 ^ 52"] by simp
  have "round_nearest x \<le> round_nearest (2 ^ 52)"
    using assms by (intro round_nearest_mono) simp
  moreover have "round_nearest (- (2 ^ 52)) \<le> round_nearest x"
    using assms by (intro round_nearest_mono) simp
  ultimately have "round_nearest x \<le> 2 ^ 52" "- (2 ^ 52) \<le> round_nearest x"
    using e by (simp_all add: round_nearest_minus)
  moreover have "(2::real) ^ 52 < 2 ^ 1024" by simp
  ultimately show ?thesis
    by (simp add: round_double_def Let_def)
qed

section \<open>Properties of the segment locator\<close>

lemma foldl_length_acc:
  "foldl (\<lambda>acc p. acc + length p) a xs = a + sum_list (map length xs)"
  by (induction xs arbitrary: a) auto

lemma totalChars_sum_list: "totalChars script = sum_list (map length script)"
  by (simp add: totalChars_def foldl_length_acc)

lemma paragraphLoop_upper:
  "paragraphLoop progress tc script i c \<le> int (length script) - 1"
proof (induction progress tc script i c rule: paragraphLoop.induct)
  case (1 progress tc script i c)
  show ?case
  proof (cases "i < length script")
    case True
    then show ?thesis
      using "1.IH" by (subst paragraphLoop.simps) (auto simp: Let_def)
  next
    case False
    then show ?thesis by (subst paragraphLoop.simps) simp
  qed
qed

lemma paragraphLoop_lower:
  "i < length script \<Longrightarrow> int i \<le> paragraphLoop progress tc script i c"
proof (induction progress tc script i c rule: paragraphLoop.induct)
  case (1 progress tc script i c)
  show ?case
  proof (cases "js_le progress (js_div (real (c + length (script ! i))) (real tc))")
    case True
    then show ?thesis using "1.prems" by (subst paragraphLoop.simps) (simp add: Let_def)
  next
    case False
    show ?thesis
    proof (cases "i + 1 < length script")
      case True
      have "int (i + 1) \<le> paragraphLoop progress tc script (i + 1) (c + length (script ! i))"
        using "1.IH"[OF "1.prems" refl refl False True] .
      then show ?thesis
        using "1.prems" False by (subst paragraphLoop.simps) (simp add: Let_def)
    next
      case F2: False
      then have "paragraphLoop progress tc script (i + 1) (c + length (script ! i)) = int (length script) - 1"
        by (subst paragraphLoop.simps) simp
      then show ?thesis
        using "1.prems" False by (subst paragraphLoop.simps) (simp add: Let_def)
    qed
  qed
qed

lemma paragraphLoop_mono:
  "js_le q1 q2 \<Longrightarrow>
   paragraphLoop q1 tc script i c \<le> paragraphLoop q2 tc script i c"
proof (induction q2 tc script i c rule: paragraphLoop.induct)
  case (1 q2 tc script i c)
  let ?r = "js_div (real (c + length (script ! i))) (real tc)"
  show ?case
  proof (cases "i < length script")
    case False
    then show ?thesis
      by (subst paragraphLoop.simps, subst (2) paragraphLoop.simps) simp
  next
    case True
    show ?thesis
    proof (cases "js_le q1 ?r")
      case le1: True
      have "paragraphLoop q1 tc script i c = int i"
        using True le1 by (subst paragraphLoop.simps) (simp add: Let_def)
      then show ?thesis using paragraphLoop_lower[OF True] by simp
    next
      case nle1: False
      then have nle2: "\<not> js_le q2 ?r"
        using js_le_trans[OF "1.prems"] by blast
      have "paragraphLoop q1 tc script (i + 1) (c + length (script ! i))
            \<le> paragraphLoop q2 tc script (i + 1) (c + length (script ! i))"
        using "1.IH"[OF True refl refl nle2 "1.prems"] .
      then show ?thesis
        using True nle1 nle2
        by (subst paragraphLoop.simps, subst (2) paragraphLoop.simps) (simp add: Let_def)
    qed
  qed
qed

lemma charCount_step:
  "i < length script \<Longrightarrow>
   sum_list (map length (take i script)) + length (script ! i)
   = sum_list (map length (take (Suc i) script))"
  by (simp add: take_Suc_conv_app_nth)

lemma paragraphLoop_first:
  "i \<le> k \<Longrightarrow> k < length script \<Longrightarrow>
   c = sum_list (map length (take i script)) \<Longrightarrow>
   \<forall>j. i \<le> j \<and> j < k \<longrightarrow>
     \<not> js_le q (js_div (real (sum_list (map length (take (Suc j) script)))) (real tc)) \<Longrightarrow>
   js_le q (js_div (real (sum_list (map length (take (Suc k) script)))) (real tc)) \<Longrightarrow>
   paragraphLoop q tc script i c = int k"
proof (induction q tc script i c rule: paragraphLoop.induct)
  case (1 q tc script i c)
  have il: "i < length script" using "1.prems" by simp
  have cnt: "c + length (script ! i) = sum_list (map length (take (Suc i) script))"
    using "1.prems"(3) charCount_step[OF il] by simp
  have div: "js_div (real (c + length (script ! i))) (real tc)
             = js_div (real (sum_list (map length (take (Suc i) script)))) (real tc)"
    by (simp only: cnt)
  show ?case
  proof (cases "i = k")
    case True
    then have "js_le q (js_div (real (c + length (script ! i))) (real tc))"
      unfolding div using "1.prems"(5) by simp
    then show ?thesis
      using il True by (subst paragraphLoop.simps) (simp add: Let_def)
  next
    case False
    then have ik: "i < k" using "1.prems"(1) by simp
    then have nle: "\<not> js_le q (js_div (real (c + length (script ! i))) (real tc))"
      unfolding div using "1.prems"(4) by simp
    have "paragraphLoop q tc script (i + 1) (c + length (script ! i)) = int k"
    proof (rule "1.IH"[OF il refl refl nle _ "1.prems"(2)])
      show "i + 1 \<le> k" using ik by simp
      show "c + length (script ! i) = sum_list (map length (take (i + 1) script))"
        using cnt by simp
      show "\<forall>j. i + 1 \<le> j \<and> j < k \<longrightarrow>
              \<not> js_le q (js_div (real (sum_list (map length (take (Suc j) script)))) (real tc))"
        using "1.prems"(4) by simp
      show "js_le q (js_div (real (sum_list (map length (take (Suc k) script)))) (real tc))"
        using "1.prems"(5) .
    qed
    then show ?thesis
      using il nle by (subst paragraphLoop.simps) (simp add: Let_def)
  qed
qed

lemma paragraphLoop_none:
  "c = sum_list (map length (take i script)) \<Longrightarrow>
   \<forall>j. i \<le> j \<and> j < length script \<longrightarrow>
     \<not> js_le q (js_div (real (sum_list (map length (take (Suc j) script)))) (real tc)) \<Longrightarrow>
   paragraphLoop q tc script i c = int (length script) - 1"
proof (induction q tc script i c rule: paragraphLoop.induct)
  case (1 q tc script i c)
  show ?case
  proof (cases "i < length script")
    case False
    then show ?thesis by (subst paragraphLoop.simps) simp
  next
    case il: True
    have cnt: "c + length (script ! i) = sum_list (map length (take (Suc i) script))"
      using "1.prems"(1) charCount_step[OF il] by simp
    have div: "js_div (real (c + length (script ! i))) (real tc)
               = js_div (real (sum_list (map length (take (Suc i) script)))) (real tc)"
      by (simp only: cnt)
    have nle: "\<not> js_le q (js_div (real (c + length (script ! i))) (real tc))"
      unfolding div using "1.prems"(2) il by simp
    have "paragraphLoop q tc script (i + 1) (c + length (script ! i))
          = int (length script) - 1"
    proof (rule "1.IH"[OF il refl refl nle])
      show "c + length (script ! i) = sum_list (map length (take (i + 1) script))"
        using cnt by simp
      show "\<forall>j. i + 1 \<le> j \<and> j < length script \<longrightarrow>
              \<not> js_le q (js_div (real (sum_list (map length (take (Suc j) script)))) (real tc))"
        using "1.prems"(2) by simp
    qed
    then show ?thesis
      using il nle by (subst paragraphLoop.simps) (simp add: Let_def)
  qed
qed

lemma paragraphLoop_NaN:
  "\<forall>p \<in> set script. p = [] \<Longrightarrow>
   paragraphLoop progress 0 script i 0 = int (length script) - 1"
proof (induction progress "0::nat" script i "0::nat" rule: paragraphLoop.induct)
  case (1 progress script i)
  show ?case
  proof (cases "i < length script")
    case False
    then show ?thesis by (subst paragraphLoop.simps) simp
  next
    case il: True
    then have e: "script ! i = []" using "1.prems" by simp
    have nle: "\<not> js_le progress (js_div (real (0 + length (script ! i))) (real 0))"
      using e by (simp add: js_div_def js_le_NaN)
    have "paragraphLoop progress 0 script (i + 1) 0 = int (length script) - 1"
      using "1.hyps"[OF il refl refl nle _ "1.prems"] e by simp
    then show ?thesis
      using il nle e by (subst paragraphLoop.simps) (simp add: Let_def)
  qed
qed

section \<open>Claims on the segment locator\<close>

lemma js_div_pos: "d \<noteq> 0 \<Longrightarrow> js_div t d = round_double (t / d)"
  by (simp add: js_div_def)

lemma round_double_1: "round_double 1 = Fin 1"
  using round_double_Fin[of 1] round_nearest_of_int[of 1] by simp

lemma round_nearest_two_fifths:
  "round_nearest (4 / 10) < round_nearest (4000001 / 10000000)"
  "round_nearest (4000001 / 10000000) \<le> 1"
  "round_nearest (4 / 10) < 1"
proof -
  have d1: "round_nearest (26843546 / 2 ^ 26) = 26843546 / 2 ^ 26"
    using round_nearest_dyadic[of 26843546 26] by simp
  have d2: "round_nearest (26843547 / 2 ^ 26) = 26843547 / 2 ^ 26"
    using round_nearest_dyadic[of 26843547 26] by simp
  have one: "round_nearest 1 = 1"
    using round_nearest_of_int[of 1] by simp
  have "round_nearest (4 / 10) \<le> round_nearest (26843546 / 2 ^ 26)"
    by (rule round_nearest_mono) simp
  moreover have "round_nearest (26843547 / 2 ^ 26) \<le> round_nearest (4000001 / 10000000)"
    by (rule round_nearest_mono) simp
  ultimately show lt: "round_nearest (4 / 10) < round_nearest (4000001 / 10000000)"
    unfolding d1 d2 by simp
  have "round_nearest (4000001 / 10000000) \<le> round_nearest 1"
    by (rule round_nearest_mono) simp
  then show le: "round_nearest (4000001 / 10000000) \<le> 1"
    unfolding one .
  show "round_nearest (4 / 10) < 1" using lt le by simp
qed

lemma round_double_examples:
  "round_double (4 / 10) = Fin (round_nearest (4 / 10))"
  "round_double (4000001 / 10000000) = Fin (round_nearest (4000001 / 10000000))"
  by (rule round_double_Fin, simp)+

lemma round_nearest_eleven_tenths: "1 < round_nearest (11 / 10)"
proof -
  have "round_nearest (17 / 2 ^ 4) = 17 / 2 ^ 4"
    using round_nearest_dyadic[of 17 4] by simp
  moreover have "round_nearest (17 / 2 ^ 4) \<le> round_nearest (11 / 10)"
    by (rule round_nearest_mono) simp
  ultimately show ?thesis by simp
qed

text \<open>
  Claim C1. With a positive character total and a positive duration, the locator computes
  the progress \<open>t / d\<close> and returns the first index whose end ratio is at least the
  progress, the bound included, and the last index when there is none; both quotients are
  the rounded ones of the program. For segments of lengths 4 and 6, the progress \<open>0.4\<close>
  gives index 0, the progress \<open>0.4000001\<close> gives index 1 and the progress \<open>1.0\<close> gives
  index 1, a decimal standing for the binary64 value nearest to it.
\<close>

theorem activeParagraphIndex_first_inclusive:
  assumes "0 < totalChars script" and "0 < d"
  shows "(\<forall>i<length script.
            js_le (js_div t d) (spec_pEndRatio script i)
            \<and> (\<forall>j<i. \<not> js_le (js_div t d) (spec_pEndRatio script j))
            \<longrightarrow> activeParagraphIndex t d script = int i)
       \<and> ((\<forall>j<length script. \<not> js_le (js_div t d) (spec_pEndRatio script j))
            \<longrightarrow> activeParagraphIndex t d script = int (length script) - 1)
       \<and> (\<forall>a b. length a = 4 \<and> length b = 6
            \<longrightarrow> (js_div t d = round_double (4 / 10)
                   \<longrightarrow> activeParagraphIndex t d [a, b] = 0)
              \<and> (js_div t d = round_double (4000001 / 10000000)
                   \<longrightarrow> activeParagraphIndex t d [a, b] = 1)
              \<and> (js_div t d = round_double 1
                   \<longrightarrow> activeParagraphIndex t d [a, b] = 1))"
proof (intro conjI allI impI)
  have api: "activeParagraphIndex t d script
             = paragraphLoop (js_div t d) (sum_list (map length script)) script 0 0"
    using assms(2) by (simp add: activeParagraphIndex_def totalChars_sum_list)
  {
    fix i
    assume il: "i < length script"
      and h: "js_le (js_div t d) (spec_pEndRatio script i)
              \<and> (\<forall>j<i. \<not> js_le (js_div t d) (spec_pEndRatio script j))"
    have "paragraphLoop (js_div t d) (sum_list (map length script)) script 0 0 = int i"
      using h by (intro paragraphLoop_first[OF _ il]) (simp_all add: spec_pEndRatio_def)
    then show "activeParagraphIndex t d script = int i" using api by simp
  }
  {
    assume h: "\<forall>j<length script. \<not> js_le (js_div t d) (spec_pEndRatio script j)"
    have "paragraphLoop (js_div t d) (sum_list (map length script)) script 0 0
          = int (length script) - 1"
      using h by (intro paragraphLoop_none) (simp_all add: spec_pEndRatio_def)
    then show "activeParagraphIndex t d script = int (length script) - 1" using api by simp
  }
  {
    fix a b :: string
    assume l: "length a = 4 \<and> length b = 6"
    have r0: "js_div (real (0 + length ([a, b] ! 0))) (real 10) = round_double (4 / 10)"
      using l by (simp add: js_div_def)
    have r1: "js_div (real (4 + length ([a, b] ! 1))) (real 10) = round_double 1"
      using l by (simp add: js_div_def)
    have api2: "activeParagraphIndex t d [a, b] = paragraphLoop (js_div t d) 10 [a, b] 0 0"
      using l assms(2) by (simp add: activeParagraphIndex_def totalChars_def)
    have step: "paragraphLoop q 10 [a, b] 0 0
                = (if js_le q (round_double (4 / 10)) then 0
                   else if js_le q (round_double 1) then 1 else 1)" for q
      using l r0 r1
      by (subst paragraphLoop.simps, subst paragraphLoop.simps, subst paragraphLoop.simps)
         (simp add: Let_def)
    {
      assume "js_div t d = round_double (4 / 10)"
      then show "activeParagraphIndex t d [a, b] = 0"
        unfolding api2 step using round_double_mono[of "4 / 10" "4 / 10"] by simp
    }
    {
      assume "js_div t d = round_double (4000001 / 10000000)"
      then show "activeParagraphIndex t d [a, b] = 1"
        unfolding api2 step
        using round_double_examples round_nearest_two_fifths(1) by simp
    }
    {
      assume "js_div t d = round_double 1"
      then show "activeParagraphIndex t d [a, b] = 1"
        unfolding api2 step
        using round_double_examples(1) round_double_1 round_nearest_two_fifths(3) by simp
    }
  }
qed

theorem activeParagraphIndex_first_inclusive_witness:
  "0 < totalChars [''abcd'', ''abcdef''] \<and> (0::real) < 10 \<and> (0::real) < 10000000
   \<and> activeParagraphIndex 4 10 [''abcd'', ''abcdef''] = 0
   \<and> activeParagraphIndex 4000001 10000000 [''abcd'', ''abcdef''] = 1
   \<and> activeParagraphIndex 10 10 [''abcd'', ''abcdef''] = 1
   \<and> activeParagraphIndex 11 10 [''abcd'', ''abcdef''] = 1"
proof -
  let ?s = "[''abcd'', ''abcdef'']"
  have tc: "0 < totalChars ?s" by (simp add: totalChars_def)
  have d: "(0::real) < 10" and d': "(0::real) < 10000000" by simp_all
  have r0: "spec_pEndRatio ?s 0 = round_double (4 / 10)"
    by (simp add: spec_pEndRatio_def js_div_def)
  have r1: "spec_pEndRatio ?s (Suc 0) = Fin 1"
    by (simp add: spec_pEndRatio_def js_div_def round_double_1)
  have q4: "js_div 4 10 = round_double (4 / 10)"
    and q10: "js_div 10 10 = Fin 1"
    and q11: "js_div 11 10 = Fin (round_nearest (11 / 10))"
    and qm: "js_div 4000001 10000000 = round_double (4000001 / 10000000)"
    using round_double_Fin[of "11 / 10"] by (simp_all add: js_div_def round_double_1)
  have f0: "round_double (4 / 10) = Fin (round_nearest (4 / 10))"
    by (rule round_double_examples)
  have "activeParagraphIndex 4 10 ?s = int 0"
    using activeParagraphIndex_first_inclusive[OF tc d, of 4, THEN conjunct1, rule_format, of 0]
      r0 q4 f0 by simp
  moreover have "activeParagraphIndex 4000001 10000000 ?s = 1"
    using activeParagraphIndex_first_inclusive[OF tc d', of 4000001,
        THEN conjunct2, THEN conjunct2, rule_format, of "''abcd''" "''abcdef''"] qm
    by simp
  moreover have "activeParagraphIndex 10 10 ?s = int 1"
    using activeParagraphIndex_first_inclusive[OF tc d, of 10, THEN conjunct1, rule_format, of 1]
      round_nearest_two_fifths(3) q10 f0 r0 r1
    by simp
  moreover have "activeParagraphIndex 11 10 ?s = int (length ?s) - 1"
    using activeParagraphIndex_first_inclusive[OF tc d, of 11, THEN conjunct2, THEN conjunct1]
      round_nearest_two_fifths(3) round_nearest_eleven_tenths q11 f0 r0 r1
    by (simp add: less_Suc_eq)
  ultimately show ?thesis using tc by simp
qed

text \<open>
  Claim C6. For fixed segments with a positive character total and a fixed positive
  duration, the located index does not decrease as the current time grows from \<open>0\<close> to
  the duration.
\<close>

theorem activeParagraphIndex_monotone:
  assumes "0 < totalChars script" and "0 < d"
    and "0 \<le> t1" and "t1 \<le> t2" and "t2 \<le> d"
  shows "activeParagraphIndex t1 d script \<le> activeParagraphIndex t2 d script"
proof -
  have "t1 / d \<le> t2 / d"
    using assms(2,4) by (simp add: divide_right_mono)
  then have "js_le (round_double (t1 / d)) (round_double (t2 / d))"
    by (rule round_double_mono)
  then have "paragraphLoop (round_double (t1 / d)) (totalChars script) script 0 0
             \<le> paragraphLoop (round_double (t2 / d)) (totalChars script) script 0 0"
    by (rule paragraphLoop_mono)
  then show ?thesis
    using assms(2) by (simp add: activeParagraphIndex_def js_div_pos)
qed

theorem activeParagraphIndex_monotone_witness:
  "0 < totalChars [''abcd'', ''abcdef''] \<and> (0::real) < 10 \<and> (0::real) \<le> 4 \<and> (4::real) \<le> 5
   \<and> (5::real) \<le> 10
   \<and> activeParagraphIndex 4 10 [''abcd'', ''abcdef'']
      \<le> activeParagraphIndex 5 10 [''abcd'', ''abcdef'']"
proof -
  have tc: "0 < totalChars [''abcd'', ''abcdef'']" by (simp add: totalChars_def)
  show ?thesis
    using tc activeParagraphIndex_monotone[OF tc, of 10 4 5] by simp
qed

text \<open>
  Claim C9. For a nonempty script with a positive character total and a positive
  duration, the located index lies between \<open>0\<close> and \<open>length script - 1\<close> for every
  current time, negative or beyond the duration included.
\<close>

theorem activeParagraphIndex_in_range:
  assumes "script \<noteq> []" and "0 < totalChars script" and "0 < d"
  shows "0 \<le> activeParagraphIndex t d script
       \<and> activeParagraphIndex t d script \<le> int (length script) - 1"
proof -
  have "0 < length script" using assms(1) by simp
  then have "int 0 \<le> paragraphLoop (js_div t d) (totalChars script) script 0 0"
    by (rule paragraphLoop_lower)
  moreover have "paragraphLoop (js_div t d) (totalChars script) script 0 0
                 \<le> int (length script) - 1"
    by (rule paragraphLoop_upper)
  ultimately show ?thesis
    using assms(3) by (simp add: activeParagraphIndex_def)
qed

theorem activeParagraphIndex_in_range_witness:
  "[''abcd'', ''abcdef''] \<noteq> [] \<and> 0 < totalChars [''abcd'', ''abcdef''] \<and> (0::real) < 10
   \<and> 0 \<le> activeParagraphIndex (-3) 10 [''abcd'', ''abcdef'']
   \<and> activeParagraphIndex (-3) 10 [''abcd'', ''abcdef''] \<le> int (length [''abcd'', ''abcdef'']) - 1"
proof -
  have tc: "0 < totalChars [''abcd'', ''abcdef'']" by (simp add: totalChars_def)
  show ?thesis
    using tc activeParagraphIndex_in_range[OF _ tc, of 10 "-3"] by simp
qed

text \<open>
  Claim C2 says that the locator returns index 0 when the character total is zero. For two
  empty segments it returns 1: every end ratio is \<open>0 / 0\<close>, which is \<open>NaN\<close>, no comparison
  holds, and the loop falls through to the last index.
\<close>

theorem activeParagraphIndex_zero_total_counterexample:
  "totalChars ['''', ''''] = 0 \<and> (0::real) < 2 \<and> activeParagraphIndex 1 2 ['''', ''''] \<noteq> 0"
  by (simp add: activeParagraphIndex_def totalChars_def js_div_def paragraphLoop.simps js_le_NaN)

text \<open>
  Claim C2, amended. When the character total is zero and the duration is positive, the
  locator returns \<open>length script - 1\<close>, the fall-through value of the loop: the last index
  of a script of empty segments, and \<open>-1\<close> for the empty script. It is a value of a total
  function: no step of the computation raises.
\<close>

theorem activeParagraphIndex_zero_total:
  assumes "totalChars script = 0" and "0 < d"
  shows "activeParagraphIndex t d script = int (length script) - 1"
proof -
  have "\<forall>p \<in> set script. p = []"
    using assms(1) by (simp add: totalChars_sum_list)
  then have "paragraphLoop (js_div t d) 0 script 0 0 = int (length script) - 1"
    by (rule paragraphLoop_NaN)
  then show ?thesis
    using assms by (simp add: activeParagraphIndex_def)
qed

theorem activeParagraphIndex_zero_total_witness:
  "totalChars ['''', '''', ''''] = 0 \<and> (0::real) < 2
   \<and> activeParagraphIndex 1 2 ['''', '''', ''''] = 2
   \<and> totalChars [] = 0 \<and> activeParagraphIndex 1 2 [] = -1"
proof -
  have tc: "totalChars ['''', '''', ''''] = 0" by (simp add: totalChars_def)
  have tc0: "totalChars [] = 0" by (simp add: totalChars_def)
  show ?thesis
    using tc tc0 activeParagraphIndex_zero_total[OF tc, of 2 1]
      activeParagraphIndex_zero_total[OF tc0, of 2 1] by simp
qed

section \<open>Claims on the decoder\<close>

lemma int16_elements_length: "length (int16_elements bytes) = length bytes div 2"
  by (induction bytes rule: int16_elements.induct) auto

lemma int16_elements_nth:
  "i < length bytes div 2 \<Longrightarrow>
   int16_elements bytes ! i = word_cat (bytes ! (2 * i + 1)) (bytes ! (2 * i))"
proof (induction bytes arbitrary: i rule: int16_elements.induct)
  case (1 lo hi rest)
  then show ?case by (cases i) auto
qed auto

lemma decodePCM_Inr:
  "decodePCM binaryString = Inr buffer \<Longrightarrow>
   channelData buffer = map normalize (int16_elements (map of_nat binaryString))"
  by (auto simp: decodePCM_def newInt16Array_def createBuffer_def Let_def
      split: if_splits)

text \<open>
  Claim C7. Every decoded sample is the signed 16-bit value of its two bytes, low byte
  first, divided by \<open>32768\<close>: the value \<open>-32768\<close> decodes to \<open>-1\<close>, \<open>0\<close> to \<open>0\<close> and
  \<open>32767\<close> to \<open>32767 / 32768\<close>.
\<close>

theorem decodePCM_normalizes:
  "(\<forall>buffer. decodePCM binaryString = Inr buffer \<longrightarrow>
      length (channelData buffer) = length binaryString div 2
      \<and> (\<forall>i < length binaryString div 2.
           channelData buffer ! i
           = real_of_int (sint (word_cat (of_nat (binaryString ! (2 * i + 1)) :: 8 word)
                                         (of_nat (binaryString ! (2 * i)) :: 8 word) :: 16 word))
             / 32768))
   \<and> normalize (- 32768) = - 1
   \<and> normalize 0 = 0
   \<and> normalize 32767 = 32767 / 32768"
proof (intro conjI allI impI)
  fix buffer
  assume d: "decodePCM binaryString = Inr buffer"
  have cd: "channelData buffer = map normalize (int16_elements (map of_nat binaryString))"
    using d by (rule decodePCM_Inr)
  show "length (channelData buffer) = length binaryString div 2"
    using cd by (simp add: int16_elements_length)
  fix i
  assume i: "i < length binaryString div 2"
  then have "int16_elements (map of_nat binaryString) ! i
             = word_cat (of_nat (binaryString ! (2 * i + 1)) :: 8 word)
                        (of_nat (binaryString ! (2 * i)) :: 8 word)"
    by (simp add: int16_elements_nth)
  then show "channelData buffer ! i
             = real_of_int (sint (word_cat (of_nat (binaryString ! (2 * i + 1)) :: 8 word)
                                           (of_nat (binaryString ! (2 * i)) :: 8 word) :: 16 word))
               / 32768"
    using cd i by (simp add: int16_elements_length normalize_def)
qed (simp_all add: normalize_def)

theorem decodePCM_normalizes_witness:
  "decodePCM [0x00, 0x80, 0x00, 0x00, 0xFF, 0x7F]
   = Inr \<lparr>numberOfChannels = 1, sampleRate = 24000, channelData = [- 1, 0, 32767 / 32768]\<rparr>
   \<and> [- 1, 0, 32767 / 32768 :: real] ! 0 = - 1
   \<and> [- 1, 0, 32767 / 32768 :: real] ! 2 = 32767 / 32768"
proof -
  let ?b = "\<lparr>numberOfChannels = 1, sampleRate = 24000, channelData = [- 1, 0, 32767 / 32768]\<rparr>"
  have d: "decodePCM [0x00, 0x80, 0x00, 0x00, 0xFF, 0x7F] = Inr ?b"
    by (simp add: decodePCM_def newInt16Array_def createBuffer_def normalize_def word_cat_eq)
  have g: "\<forall>i < length [0x00, 0x80, 0x00, 0x00, 0xFF, 0x7F :: nat] div 2.
           channelData ?b ! i
           = real_of_int (sint (word_cat (of_nat ([0x00, 0x80, 0x00, 0x00, 0xFF, 0x7F] ! (2 * i + 1)) :: 8 word)
                                         (of_nat ([0x00, 0x80, 0x00, 0x00, 0xFF, 0x7F] ! (2 * i)) :: 8 word) :: 16 word))
             / 32768"
    using decodePCM_normalizes[of "[0x00, 0x80, 0x00, 0x00, 0xFF, 0x7F]", THEN conjunct1, rule_format, OF d]
    by blast
  have "channelData ?b ! 0 = - 1"
    using g[rule_format, of 0] by (simp add: word_cat_eq)
  moreover have "channelData ?b ! 2 = 32767 / 32768"
    using g[rule_format, of 2] by (simp add: word_cat_eq)
  ultimately show ?thesis using d by simp
qed

text \<open>
  Claim C8 says that a payload of odd byte length is decoded with its last byte dropped.
  For three bytes the view constructor raises instead, and no sample is produced.
\<close>

theorem decodePCM_odd_counterexample:
  "odd (length [1, 2, 3 :: nat]) \<and> decodePCM [1, 2, 3] = Inl RangeError"
  by (simp add: decodePCM_def newInt16Array_def)

text \<open>
  Claim C8, amended. For a payload whose decoded byte length is odd, the construction of
  the 16-bit view raises a \<^verbatim>\<open>RangeError\<close>; \<^verbatim>\<open>initAudio\<close> catches and logs it, and leaves
  the decoded buffer and the duration as they were: only the new audio context is stored.
\<close>

theorem initAudio_odd_length_raises:
  assumes "odd (length binaryString)"
  shows "decodePCM binaryString = Inl RangeError
       \<and> (atob base64Audio = Inr binaryString \<longrightarrow>
            initAudio (Inr ctx) atob base64Audio s
            = s\<lparr>audioContextRef := Some ctx, effects := effects s @ [ConsoleError RangeError]\<rparr>)"
proof -
  have "length binaryString mod 2 \<noteq> 0" using assms by presburger
  then have d: "decodePCM binaryString = Inl RangeError"
    by (simp add: decodePCM_def newInt16Array_def)
  then show ?thesis by (simp add: initAudio_def)
qed

theorem initAudio_odd_length_raises_witness:
  "odd (length [1, 2, 3 :: nat])
   \<and> decodePCM [1, 2, 3] = Inl RangeError
   \<and> initAudio (Inr Suspended) (\<lambda>b. Inr [1, 2, 3]) ''AQID'' initialPlayer
     = initialPlayer\<lparr>audioContextRef := Some Suspended, effects := [ConsoleError RangeError]\<rparr>
   \<and> audioBuffer (initAudio (Inr Suspended) (\<lambda>b. Inr [1, 2, 3]) ''AQID'' initialPlayer) = None
   \<and> duration (initAudio (Inr Suspended) (\<lambda>b. Inr [1, 2, 3]) ''AQID'' initialPlayer) = 0"
proof -
  have o: "odd (length [1, 2, 3 :: nat])" by simp
  show ?thesis
    using o initAudio_odd_length_raises[OF o, of "\<lambda>b. Inr [1, 2, 3]" "''AQID''" Suspended initialPlayer]
    by (simp add: initialPlayer_def)
qed

section \<open>Claims on the transport and the progress clock\<close>

lemma handlePlay_fields:
  assumes "audioBuffer s \<noteq> None" and "audioContextRef s \<noteq> None"
  shows "startTimeRef (handlePlay now s)
           = js_sub now (if currentTime s \<ge> duration s then 0 else currentTime s)"
    and "isPlaying (handlePlay now s)"
    and "audioContextRef (handlePlay now s) \<noteq> None"
    and "audioSourceRef (handlePlay now s) \<noteq> None"
    and "currentTime (handlePlay now s) = currentTime s"
    and "duration (handlePlay now s) = duration s"
    and "audioBuffer (handlePlay now s) = audioBuffer s"
  using assms by (auto simp: handlePlay_def Let_def split: option.splits)

lemma handlePause_fields:
  shows "currentTime (handlePause s) = currentTime s"
    and "duration (handlePause s) = duration s"
    and "audioBuffer (handlePause s) = audioBuffer s"
    and "startTimeRef (handlePause s) = startTimeRef s"
    and "audioContextRef (handlePause s) = audioContextRef s"
  by (simp_all add: handlePause_def split: option.splits)

lemma handlePause_stops:
  "audioSourceRef s \<noteq> None \<Longrightarrow> \<not> isPlaying (handlePause s)"
  by (auto simp: handlePause_def split: option.splits)

lemma updateProgress_playing:
  assumes "isPlaying s" and "audioContextRef s \<noteq> None" and "elapsed now s \<le> duration s"
  shows "fst (updateProgress now s) = s\<lparr>currentTime := elapsed now s\<rparr>"
  using assms by (simp add: updateProgress_def min_def)

lemma pause_resume_trace:
  assumes "audioBuffer s \<noteq> None" and "audioContextRef s \<noteq> None"
    and "currentTime s = 0"
    and "elapsed n1 (handlePlay c0 s) < duration s"
  shows "startTimeRef (handlePlay c0 s) = js_sub c0 0"
    and "elapsed n1 (handlePlay c0 s) = js_sub n1 (js_sub c0 0)"
    and "currentTime (fst (updateProgress n1 (handlePlay c0 s))) = elapsed n1 (handlePlay c0 s)"
    and "\<not> isPlaying (handlePause (fst (updateProgress n1 (handlePlay c0 s))))"
    and "currentTime (handlePause (fst (updateProgress n1 (handlePlay c0 s))))
         = elapsed n1 (handlePlay c0 s)"
    and "startTimeRef (handlePlay c1 (handlePause (fst (updateProgress n1 (handlePlay c0 s)))))
         = js_sub c1 (elapsed n1 (handlePlay c0 s))"
    and "elapsed n2 (handlePlay c1 (handlePause (fst (updateProgress n1 (handlePlay c0 s)))))
         = js_sub n2 (js_sub c1 (elapsed n1 (handlePlay c0 s)))"
proof -
  define s1 where "s1 = handlePlay c0 s"
  define p where "p = elapsed n1 s1"
  define s2 where "s2 = fst (updateProgress n1 s1)"
  define s3 where "s3 = handlePause s2"
  define s4 where "s4 = handlePlay c1 s3"
  note p1 = handlePlay_fields[OF assms(1,2), of c0, folded s1_def]
  have lt: "p < duration s" using assms(4) by (simp add: p_def s1_def)
  show st1: "startTimeRef (handlePlay c0 s) = js_sub c0 0"
    using p1(1) assms(3) by (simp add: s1_def)
  show "elapsed n1 (handlePlay c0 s) = js_sub n1 (js_sub c0 0)"
    using st1 by (simp add: elapsed_def)
  have le1: "elapsed n1 s1 \<le> duration s1" using lt p1(6) by (simp add: p_def)
  have s2: "s2 = s1\<lparr>currentTime := p\<rparr>"
    unfolding s2_def p_def using updateProgress_playing[OF p1(2,3) le1] .
  then show "currentTime (fst (updateProgress n1 (handlePlay c0 s))) = elapsed n1 (handlePlay c0 s)"
    by (simp add: s2_def s1_def p_def)
  have src2: "audioSourceRef s2 \<noteq> None" using s2 p1(4) by simp
  have "\<not> isPlaying s3" unfolding s3_def using src2 by (rule handlePause_stops)
  then show "\<not> isPlaying (handlePause (fst (updateProgress n1 (handlePlay c0 s))))"
    by (simp add: s3_def s2_def s1_def)
  have ct3: "currentTime s3 = p" unfolding s3_def using s2 by (simp add: handlePause_fields)
  then show "currentTime (handlePause (fst (updateProgress n1 (handlePlay c0 s))))
             = elapsed n1 (handlePlay c0 s)"
    by (simp add: s3_def s2_def s1_def p_def)
  have du3: "duration s3 = duration s"
    unfolding s3_def using s2 p1(6) by (simp add: handlePause_fields)
  have b3: "audioBuffer s3 \<noteq> None"
    unfolding s3_def using s2 p1(7) assms(1) by (simp add: handlePause_fields)
  have c3: "audioContextRef s3 \<noteq> None"
    unfolding s3_def using s2 p1(3) by (simp add: handlePause_fields)
  note p4 = handlePlay_fields[OF b3 c3, of c1, folded s4_def]
  have st4: "startTimeRef s4 = js_sub c1 p" using p4(1) ct3 du3 lt by simp
  then show "startTimeRef (handlePlay c1 (handlePause (fst (updateProgress n1 (handlePlay c0 s)))))
             = js_sub c1 (elapsed n1 (handlePlay c0 s))"
    by (simp add: s4_def s3_def s2_def s1_def p_def)
  have "elapsed n2 s4 = js_sub n2 (js_sub c1 p)" using st4 by (simp add: elapsed_def)
  then show "elapsed n2 (handlePlay c1 (handlePause (fst (updateProgress n1 (handlePlay c0 s)))))
             = js_sub n2 (js_sub c1 (elapsed n1 (handlePlay c0 s)))"
    by (simp add: s4_def s3_def s2_def s1_def p_def)
qed

lemma example_player_ready:
  "audioBuffer example_player \<noteq> None" "audioContextRef example_player \<noteq> None"
  "currentTime example_player = 0" "duration example_player = 10"
  by (simp_all add: example_player_def)

lemma js_sub_examples:
  "js_sub 5 0 = 5" "js_sub 6 5 = 1" "js_sub (383 / 64) 5 = 63 / 64"
  "js_sub 9 (63 / 64) = 513 / 64" "js_sub (9 + 2) (513 / 64) = 191 / 64"
  "js_sub 9 1 = 8" "js_sub (9 + 2) 8 = 3"
  using round_nearest_of_int[of 5] round_nearest_of_int[of 1] round_nearest_dyadic[of 63 6]
    round_nearest_dyadic[of 513 6] round_nearest_dyadic[of 191 6]
    round_nearest_of_int[of 8] round_nearest_of_int[of 3]
  by (simp_all add: js_sub_def)

text \<open>
  Claim C3 says that the position kept by a pause is the elapsed time at the pause, and
  that the resumed run adds to it. Play from the example state at clock \<open>5\<close>; a frame at
  clock \<open>383 / 64\<close> publishes \<open>63 / 64\<close>; at clock \<open>6\<close>, where the elapsed time is \<open>1\<close>,
  the player is paused: the pause reads no clock and keeps \<open>63 / 64\<close>. After the resume at
  clock \<open>9\<close> and two more seconds the elapsed time is \<open>191 / 64\<close>, not \<open>1 + 2\<close>. Every
  number of this run is a binary64 value, and no operation rounds.
\<close>

theorem pause_resume_counterexample:
  "currentTime example_player = 0 \<and> 1 < duration example_player
   \<and> elapsed 6 (handlePlay 5 example_player) = 1
   \<and> currentTime (handlePause (fst (updateProgress (383 / 64) (handlePlay 5 example_player))))
     = 63 / 64
   \<and> elapsed (9 + 2)
        (handlePlay 9 (handlePause (fst (updateProgress (383 / 64) (handlePlay 5 example_player)))))
     \<noteq> 1 + 2"
proof -
  have st: "startTimeRef (handlePlay 5 example_player) = 5"
    using handlePlay_fields(1)[OF example_player_ready(1,2), of 5] example_player_ready(3,4)
      js_sub_examples(1) by simp
  have e6: "elapsed 6 (handlePlay 5 example_player) = 1"
    using st js_sub_examples(2) by (simp add: elapsed_def)
  have ef: "elapsed (383 / 64) (handlePlay 5 example_player) = 63 / 64"
    using st js_sub_examples(3) by (simp add: elapsed_def)
  have lt: "elapsed (383 / 64) (handlePlay 5 example_player) < duration example_player"
    using ef example_player_ready(4) by simp
  note tr = pause_resume_trace[OF example_player_ready(1,2,3) lt]
  have ct: "currentTime (handlePause (fst (updateProgress (383 / 64) (handlePlay 5 example_player))))
            = 63 / 64"
    using tr(5) ef by simp
  have "elapsed (9 + 2)
          (handlePlay 9 (handlePause (fst (updateProgress (383 / 64) (handlePlay 5 example_player)))))
        = 191 / 64"
    using tr(7)[of "9 + 2" 9] ef js_sub_examples(4,5) by simp
  then show ?thesis
    using e6 ct example_player_ready(3,4) by simp
qed

text \<open>
  Claim C3, amended. Play from offset \<open>0\<close> at clock \<open>c0\<close> records the anchor \<open>c0 - 0\<close>,
  rounded; a sample of the progress clock at clock \<open>n1\<close> has the elapsed time
  \<open>p = n1 - anchor\<close>, rounded, which is \<open>n1 - c0\<close> when \<open>c0\<close> and that difference are
  binary64 values; when \<open>p\<close> is below the duration the sample publishes it, and a pause
  after that sample keeps \<open>p\<close>, whatever the clock has reached by then. The resume at
  clock \<open>c1\<close> records the anchor \<open>c1 - p\<close>, rounded, and the elapsed time at a clock \<open>n2\<close>
  is \<open>n2 - anchor\<close>, rounded: at \<open>n2 = c1 + dt2\<close> it is \<open>p + dt2\<close> when \<open>c1 - p\<close> and
  \<open>p + dt2\<close> are binary64 values. The resumed run counts from \<open>p\<close>, not from \<open>0\<close>.
\<close>

theorem pause_resume_from_last_sample:
  assumes "audioBuffer s \<noteq> None" and "audioContextRef s \<noteq> None"
    and "currentTime s = 0"
    and "elapsed n1 (handlePlay c0 s) < duration s"
  shows "let s1 = handlePlay c0 s;
             p = elapsed n1 s1;
             s2 = fst (updateProgress n1 s1);
             s3 = handlePause s2;
             s4 = handlePlay c1 s3
         in startTimeRef s1 = js_sub c0 0
          \<and> p = js_sub n1 (js_sub c0 0)
          \<and> (round_nearest c0 = c0 \<and> round_nearest (n1 - c0) = n1 - c0 \<longrightarrow> p = n1 - c0)
          \<and> currentTime s2 = p
          \<and> \<not> isPlaying s3 \<and> currentTime s3 = p
          \<and> startTimeRef s4 = js_sub c1 p
          \<and> (\<forall>n2. elapsed n2 s4 = js_sub n2 (js_sub c1 p))
          \<and> (round_nearest (c1 - p) = c1 - p \<and> round_nearest (p + dt2) = p + dt2
               \<longrightarrow> elapsed (c1 + dt2) s4 = p + dt2)"
proof -
  note tr = pause_resume_trace[OF assms]
  let ?p = "elapsed n1 (handlePlay c0 s)"
  let ?s4 = "handlePlay c1 (handlePause (fst (updateProgress n1 (handlePlay c0 s))))"
  have ex1: "round_nearest c0 = c0 \<and> round_nearest (n1 - c0) = n1 - c0 \<longrightarrow> ?p = n1 - c0"
    using tr(2) by (simp add: js_sub_def)
  have ex2: "round_nearest (c1 - ?p) = c1 - ?p \<and> round_nearest (?p + dt2) = ?p + dt2
             \<longrightarrow> elapsed (c1 + dt2) ?s4 = ?p + dt2"
  proof
    assume h: "round_nearest (c1 - ?p) = c1 - ?p \<and> round_nearest (?p + dt2) = ?p + dt2"
    have "elapsed (c1 + dt2) ?s4 = round_nearest (c1 + dt2 - round_nearest (c1 - ?p))"
      using tr(7)[of "c1 + dt2" c1] by (simp add: js_sub_def)
    also have "\<dots> = round_nearest (c1 + dt2 - (c1 - ?p))"
      using h by (simp only:)
    also have "c1 + dt2 - (c1 - ?p) = ?p + dt2"
      by simp
    finally show "elapsed (c1 + dt2) ?s4 = ?p + dt2" using h by simp
  qed
  show ?thesis
    unfolding Let_def
    using tr(1,2,3,4,5,6) tr(7)[of _ c1] ex1 ex2 by blast
qed

theorem pause_resume_from_last_sample_witness:
  "audioBuffer example_player \<noteq> None \<and> audioContextRef example_player \<noteq> None
   \<and> currentTime example_player = 0
   \<and> elapsed 6 (handlePlay 5 example_player) < duration example_player
   \<and> elapsed 6 (handlePlay 5 example_player) = 1
   \<and> currentTime (handlePause (fst (updateProgress 6 (handlePlay 5 example_player)))) = 1
   \<and> startTimeRef
        (handlePlay 9 (handlePause (fst (updateProgress 6 (handlePlay 5 example_player))))) = 8
   \<and> elapsed (9 + 2)
        (handlePlay 9 (handlePause (fst (updateProgress 6 (handlePlay 5 example_player))))) = 1 + 2"
proof -
  have st: "startTimeRef (handlePlay 5 example_player) = 5"
    using handlePlay_fields(1)[OF example_player_ready(1,2), of 5] example_player_ready(3,4)
      js_sub_examples(1) by simp
  have e6: "elapsed 6 (handlePlay 5 example_player) = 1"
    using st js_sub_examples(2) by (simp add: elapsed_def)
  have lt: "elapsed 6 (handlePlay 5 example_player) < duration example_player"
    using e6 example_player_ready(4) by simp
  note w = pause_resume_from_last_sample[OF example_player_ready(1,2,3) lt, of 9 2,
      unfolded Let_def e6]
  have r1: "round_nearest ((9::real) - 1) = 9 - 1"
    using round_nearest_of_int[of 8] by simp
  have r2: "round_nearest ((1::real) + 2) = 1 + 2"
    using round_nearest_of_int[of 3] by simp
  have a: "currentTime (handlePause (fst (updateProgress 6 (handlePlay 5 example_player)))) = 1"
    using w by blast
  have b: "startTimeRef
             (handlePlay 9 (handlePause (fst (updateProgress 6 (handlePlay 5 example_player)))))
           = js_sub 9 1"
    using w by blast
  have c: "elapsed (9 + 2)
             (handlePlay 9 (handlePause (fst (updateProgress 6 (handlePlay 5 example_player)))))
           = 1 + 2"
    using w r1 r2 by blast
  show ?thesis
    using example_player_ready(1,2,3) lt e6 a b c js_sub_examples(6) by simp
qed

text \<open>
  Claim C4. A step of the progress clock while playing: when the elapsed time is at most
  the duration it publishes \<open>min elapsed duration\<close>, stays playing and asks for another
  frame; when the elapsed time exceeds the duration it leaves the playing state,
  publishes the duration and asks for no frame, and any later step changes nothing.
\<close>

theorem updateProgress_step:
  assumes "isPlaying s" and "audioContextRef s \<noteq> None"
  shows "(elapsed now s \<le> duration s \<longrightarrow>
            updateProgress now s = (s\<lparr>currentTime := min (elapsed now s) (duration s)\<rparr>, True)
            \<and> isPlaying (fst (updateProgress now s)))
       \<and> (duration s < elapsed now s \<longrightarrow>
            updateProgress now s = (s\<lparr>isPlaying := False, currentTime := duration s\<rparr>, False)
            \<and> (\<forall>later. updateProgress later (fst (updateProgress now s))
                        = (fst (updateProgress now s), False)))"
  using assms by (simp add: updateProgress_def)

theorem updateProgress_step_witness:
  "(let s = initialPlayer\<lparr>isPlaying := True, audioContextRef := Some Running,
              startTimeRef := 5, duration := 2\<rparr>
    in isPlaying s \<and> audioContextRef s \<noteq> None
       \<and> elapsed 6 s \<le> duration s
       \<and> updateProgress 6 s = (s\<lparr>currentTime := 1\<rparr>, True)
       \<and> duration s < elapsed 8 s
       \<and> updateProgress 8 s = (s\<lparr>isPlaying := False, currentTime := 2\<rparr>, False)
       \<and> updateProgress 9 (fst (updateProgress 8 s)) = (fst (updateProgress 8 s), False))"
proof -
  let ?s = "initialPlayer\<lparr>isPlaying := True, audioContextRef := Some Running,
              startTimeRef := 5, duration := 2\<rparr>"
  have h: "isPlaying ?s" "audioContextRef ?s \<noteq> None"
    by (simp_all add: initialPlayer_def)
  have e6: "elapsed 6 ?s = 1" and e8: "elapsed 8 ?s = 3" and d: "duration ?s = 2"
    using round_nearest_of_int[of 1] round_nearest_of_int[of 3]
    by (simp_all add: elapsed_def js_sub_def initialPlayer_def)
  have le: "elapsed 6 ?s \<le> duration ?s" and lt: "duration ?s < elapsed 8 ?s"
    using e6 e8 d by simp_all
  note r6 = updateProgress_step[OF h, of 6, THEN conjunct1, THEN mp, OF le]
  note r8 = updateProgress_step[OF h, of 8, THEN conjunct2, THEN mp, OF lt]
  have a: "updateProgress 6 ?s = (?s\<lparr>currentTime := 1\<rparr>, True)"
    using r6[THEN conjunct1] e6 d by simp
  have b: "updateProgress 8 ?s = (?s\<lparr>isPlaying := False, currentTime := 2\<rparr>, False)"
    using r8[THEN conjunct1] d by simp
  have c: "updateProgress 9 (fst (updateProgress 8 ?s)) = (fst (updateProgress 8 ?s), False)"
    using r8[THEN conjunct2, THEN spec, of 9] .
  show ?thesis
    unfolding Let_def using h a b c le lt by blast
qed

text \<open>
  Claim C5. Play with the current time at or beyond the duration starts the source at
  offset \<open>0\<close>; otherwise it starts the source at exactly the current time. The anchor is
  the clock minus that offset, rounded.
\<close>

theorem handlePlay_offset:
  assumes "audioBuffer s \<noteq> None" and "audioContextRef s \<noteq> None"
  shows "(currentTime s \<ge> duration s \<longrightarrow>
            last (effects (handlePlay now s)) = SourceStart 0 0
            \<and> startTimeRef (handlePlay now s) = js_sub now 0)
       \<and> (currentTime s < duration s \<longrightarrow>
            last (effects (handlePlay now s)) = SourceStart 0 (currentTime s)
            \<and> startTimeRef (handlePlay now s) = js_sub now (currentTime s))"
  using assms by (auto simp: handlePlay_def Let_def split: option.splits)

theorem handlePlay_offset_witness:
  "audioBuffer (example_player\<lparr>currentTime := 10\<rparr>) \<noteq> None
   \<and> audioContextRef (example_player\<lparr>currentTime := 10\<rparr>) \<noteq> None
   \<and> currentTime (example_player\<lparr>currentTime := 10\<rparr>)
      \<ge> duration (example_player\<lparr>currentTime := 10\<rparr>)
   \<and> last (effects (handlePlay 7 (example_player\<lparr>currentTime := 10\<rparr>))) = SourceStart 0 0
   \<and> startTimeRef (handlePlay 7 (example_player\<lparr>currentTime := 10\<rparr>)) = 7
   \<and> currentTime (example_player\<lparr>currentTime := 3\<rparr>)
      < duration (example_player\<lparr>currentTime := 3\<rparr>)
   \<and> last (effects (handlePlay 7 (example_player\<lparr>currentTime := 3\<rparr>))) = SourceStart 0 3
   \<and> startTimeRef (handlePlay 7 (example_player\<lparr>currentTime := 3\<rparr>)) = 4"
proof -
  have h: "audioBuffer (example_player\<lparr>currentTime := t\<rparr>) \<noteq> None"
    "audioContextRef (example_player\<lparr>currentTime := t\<rparr>) \<noteq> None" for t
    by (simp_all add: example_player_def)
  have d: "duration (example_player\<lparr>currentTime := t\<rparr>) = 10" for t
    by (simp add: example_player_def)
  have j: "js_sub 7 0 = 7" "js_sub 7 3 = 4"
    using round_nearest_of_int[of 7] round_nearest_of_int[of 4] by (simp_all add: js_sub_def)
  show ?thesis
    using h[of 10] handlePlay_offset[OF h, of 10 7] handlePlay_offset[OF h, of 3 7] d j
    by simp
qed

text \<open>
  Claim C10. Pause with a stored source node stops that node, clears the reference and
  the playing flag, and changes nothing else; the current time, the duration, the decoded
  buffer, the anchor and the audio context are always kept; without a stored source node
  pause changes nothing at all.
\<close>

theorem handlePause_frame:
  "(\<forall>source. audioSourceRef s = Some source \<longrightarrow>
      handlePause s
      = s\<lparr>audioSourceRef := None, isPlaying := False, effects := effects s @ [SourceStop]\<rparr>)
   \<and> currentTime (handlePause s) = currentTime s
   \<and> duration (handlePause s) = duration s
   \<and> audioBuffer (handlePause s) = audioBuffer s
   \<and> startTimeRef (handlePause s) = startTimeRef s
   \<and> audioContextRef (handlePause s) = audioContextRef s
   \<and> (audioSourceRef s = None \<longrightarrow> handlePause s = s)"
  by (simp add: handlePause_def split: option.splits)

theorem handlePause_frame_witness:
  "(let b = \<lparr>numberOfChannels = 1, sampleRate = 24000, channelData = [0, 0]\<rparr>;
        s = initialPlayer\<lparr>isPlaying := True, audioContextRef := Some Running,
              audioSourceRef := Some \<lparr>node_buffer = b\<rparr>, startTimeRef := 5,
              currentTime := 1 / 48000, duration := 2 / 24000, audioBuffer := Some b\<rparr>
    in audioSourceRef s = Some \<lparr>node_buffer = b\<rparr>
       \<and> handlePause s
         = s\<lparr>audioSourceRef := None, isPlaying := False, effects := [SourceStop]\<rparr>
       \<and> audioSourceRef (handlePause s) = None
       \<and> handlePause (handlePause s) = handlePause s)"
proof -
  let ?b = "\<lparr>numberOfChannels = 1, sampleRate = 24000, channelData = [0, 0]\<rparr>"
  let ?s = "initialPlayer\<lparr>isPlaying := True, audioContextRef := Some Running,
              audioSourceRef := Some \<lparr>node_buffer = ?b\<rparr>, startTimeRef := 5,
              currentTime := 1 / 48000, duration := 2 / 24000, audioBuffer := Some ?b\<rparr>"
  have src: "audioSourceRef ?s = Some \<lparr>node_buffer = ?b\<rparr>" by simp
  have e: "effects ?s = []" by (simp add: initialPlayer_def)
  have p: "handlePause ?s
           = ?s\<lparr>audioSourceRef := None, isPlaying := False, effects := [SourceStop]\<rparr>"
    using handlePause_frame[of ?s, THEN conjunct1, rule_format, OF src] e by simp
  have n: "audioSourceRef (handlePause ?s) = None" using p by simp
  have i: "handlePause (handlePause ?s) = handlePause ?s"
    using handlePause_frame[of "handlePause ?s"] n by simp
  show ?thesis unfolding Let_def using src p n i by simp
qed

end
